theory Spec2Isabelle
  imports Complex_Main "HOL-Library.Word"
begin

section \<open>Python values used by the lab-test analyzer\<close>

text \<open>
  A Python \<open>str\<close> is modelled as a \<open>string\<close>: a list of 8-bit characters, read as
  the code points 0..255. Text with code points above 255 is outside the model.

  Exceptions are values. Only the classes that the handlers of \<open>main.py\<close> tell apart
  are kept; the message of an exception is kept where the program prints it.
\<close>

datatype py_error = ValueError | AttributeError | TypeError | IndexError | KeyError

text \<open>
  A Python \<open>float\<close> is an IEEE binary64 number. The program only compares floats with
  \<open><\<close> and \<open>>\<close>, so a finite double is represented by the rational it denotes (both
  zeros by \<open>0\<close>), next to the two infinities and NaN.
\<close>

datatype double = Fin rat | PInf | NInf | NaN

fun fl_lt :: "double \<Rightarrow> double \<Rightarrow> bool" where
  "fl_lt NaN y = False"
| "fl_lt x NaN = False"
| "fl_lt (Fin x) (Fin y) = (x < y)"
| "fl_lt (Fin x) PInf = True"
| "fl_lt (Fin x) NInf = False"
| "fl_lt PInf y = False"
| "fl_lt NInf NInf = False"
| "fl_lt NInf y = True"

definition fl_gt :: "double \<Rightarrow> double \<Rightarrow> bool" where
  "fl_gt x y = fl_lt y x"

definition fl_le :: "double \<Rightarrow> double \<Rightarrow> bool" where
  "fl_le x y = (fl_lt x y \<or> (x \<noteq> NaN \<and> x = y))"

subsection \<open>Character classes\<close>

definition is_decimal :: "char \<Rightarrow> bool" where
  "is_decimal c = (let n = (of_char c :: nat) in 48 \<le> n \<and> n \<le> 57)"

text \<open>\<open>str.isspace\<close> on one character (the class \<open>\s\<close> of \<open>re\<close> on \<open>str\<close>).\<close>

definition is_space :: "char \<Rightarrow> bool" where
  "is_space c = (let n = (of_char c :: nat) in
     (9 \<le> n \<and> n \<le> 13) \<or> (28 \<le> n \<and> n \<le> 32) \<or> n = 133 \<or> n = 160)"

text \<open>
  The white space \<open>float()\<close> strips: the C-locale space characters, and the
  non-ASCII spaces, which CPython first turns into blanks.
\<close>

definition is_float_space :: "char \<Rightarrow> bool" where
  "is_float_space c = (let n = (of_char c :: nat) in
     (9 \<le> n \<and> n \<le> 13) \<or> n = 32 \<or> n = 133 \<or> n = 160)"

text \<open>\<open>str.lower\<close> on one character of the range 0..255.\<close>

definition to_lower :: "char \<Rightarrow> char" where
  "to_lower c = (let n = (of_char c :: nat) in
     if (65 \<le> n \<and> n \<le> 90) \<or> (192 \<le> n \<and> n \<le> 222 \<and> n \<noteq> 215)
     then char_of (n + 32) else c)"

definition digit_val :: "char \<Rightarrow> nat" where
  "digit_val c = of_char c - 48"

subsection \<open>\<open>str.split(sep)\<close> with a one-character separator\<close>

fun split_on :: "char \<Rightarrow> string \<Rightarrow> string list" where
  "split_on sep [] = [[]]"
| "split_on sep (c # cs) =
     (if c = sep then [] # split_on sep cs
      else (case split_on sep cs of
              [] \<Rightarrow> [[c]]
            | p # ps \<Rightarrow> (c # p) # ps))"

subsection \<open>\<open>float(str)\<close>\<close>

text \<open>
  The grammar of the Python reference: optional sign, then \<open>inf\<close>, \<open>infinity\<close> or
  \<open>nan\<close> in any case, or a decimal number with an optional exponent, where single
  underscores may stand between digits. White space around the literal is stripped.
\<close>

fun valid_digitpart :: "string \<Rightarrow> bool" where
  "valid_digitpart [] = False"
| "valid_digitpart [c] = is_decimal c"
| "valid_digitpart (c # d # r) =
     (is_decimal c \<and> (if d = CHR ''_'' then valid_digitpart r else valid_digitpart (d # r)))"

definition digit_or_us :: "char \<Rightarrow> bool" where
  "digit_or_us c = (is_decimal c \<or> c = CHR ''_'')"

definition dec_val :: "string \<Rightarrow> nat" where
  "dec_val s = foldl (\<lambda>a c. 10 * a + digit_val c) 0 (filter is_decimal s)"

definition parse_exponent :: "string \<Rightarrow> int option" where
  "parse_exponent s =
     (case s of
        [] \<Rightarrow> Some 0
      | c # r \<Rightarrow>
          if c = CHR ''e'' \<or> c = CHR ''E'' then
            (case r of
               [] \<Rightarrow> None
             | d # r' \<Rightarrow>
                 if d = CHR ''-'' then
                   (if valid_digitpart r' then Some (- int (dec_val r')) else None)
                 else if d = CHR ''+'' then
                   (if valid_digitpart r' then Some (int (dec_val r')) else None)
                 else (if valid_digitpart r then Some (int (dec_val r)) else None))
          else None)"

text \<open>
  \<open>parse_number s = Some (m, e)\<close> when \<open>s\<close> is a \<open>floatnumber\<close> denoting
  \<open>m * 10 ^ e\<close>.
\<close>

definition parse_number :: "string \<Rightarrow> (nat \<times> int) option" where
  "parse_number s =
     (let ip = takeWhile digit_or_us s;
          r1 = dropWhile digit_or_us s;
          has_dot = (case r1 of [] \<Rightarrow> False | c # r \<Rightarrow> c = CHR ''.'');
          fp = (if has_dot then takeWhile digit_or_us (tl r1) else []);
          r2 = (if has_dot then dropWhile digit_or_us (tl r1) else r1);
          mant_ok = (if ip = [] then has_dot \<and> valid_digitpart fp
                     else valid_digitpart ip \<and> (fp = [] \<or> valid_digitpart fp))
      in if mant_ok then
           (case parse_exponent r2 of
              None \<Rightarrow> None
            | Some e \<Rightarrow>
                Some (dec_val (ip @ fp), e - int (length (filter is_decimal fp))))
         else None)"

text \<open>
  Rounding to the nearest binary64 number, ties to even, as CPython's correctly
  rounded \<open>strtod\<close> does; a result of magnitude \<open>2 ^ 1024\<close> or more is an infinity
  (\<open>float("1e999")\<close> is \<open>inf\<close>, not an error).
\<close>

fun bit_length :: "nat \<Rightarrow> nat" where
  "bit_length n = (if n = 0 then 0 else Suc (bit_length (n div 2)))"

declare bit_length.simps [simp del]

definition floor_log2 :: "nat \<Rightarrow> nat \<Rightarrow> int" where
  "floor_log2 n d =
     (let k = int (bit_length n) - int (bit_length d)
      in if (if 0 \<le> k then d * 2 ^ nat k \<le> n else d \<le> n * 2 ^ nat (- k)) then k else k - 1)"

definition round_half_even :: "nat \<Rightarrow> nat \<Rightarrow> nat" where
  "round_half_even a b =
     (let f = a div b; r = a mod b
      in if 2 * r < b then f
         else if b < 2 * r then f + 1
         else if even f then f else f + 1)"

definition pow2 :: "int \<Rightarrow> rat" where
  "pow2 e = (if 0 \<le> e then 2 ^ nat e else 1 / 2 ^ nat (- e))"

definition round_double :: "nat \<Rightarrow> int \<Rightarrow> double" where
  "round_double m e10 =
     (if m = 0 then Fin 0
      else
        let n = (if 0 \<le> e10 then m * 10 ^ nat e10 else m);
            d = (if 0 \<le> e10 then 1 else 10 ^ nat (- e10));
            e2 = max (floor_log2 n d - 52) (- 1074);
            mant = (if 0 \<le> e2 then round_half_even n (d * 2 ^ nat e2)
                    else round_half_even (n * 2 ^ nat (- e2)) d)
        in if 971 < e2 \<or> (e2 = 971 \<and> 2 ^ 53 \<le> mant) then PInf
           else Fin (of_nat mant * pow2 e2))"

definition fl_neg :: "double \<Rightarrow> double" where
  "fl_neg x = (case x of Fin q \<Rightarrow> Fin (- q) | PInf \<Rightarrow> NInf | NInf \<Rightarrow> PInf | NaN \<Rightarrow> NaN)"

definition strip_float :: "string \<Rightarrow> string" where
  "strip_float s = rev (dropWhile is_float_space (rev (dropWhile is_float_space s)))"

definition parse_abs_float :: "string \<Rightarrow> py_error + double" where
  "parse_abs_float body =
     (let low = map to_lower body
      in if low = ''inf'' \<or> low = ''infinity'' then Inr PInf
         else if low = ''nan'' then Inr NaN
         else (case parse_number body of
                 None \<Rightarrow> Inl ValueError
               | Some (m, e) \<Rightarrow> Inr (round_double m e)))"

definition py_float :: "string \<Rightarrow> py_error + double" where
  "py_float s =
     (case strip_float s of
        [] \<Rightarrow> Inl ValueError
      | c # r \<Rightarrow>
          if c = CHR ''-'' then
            (case parse_abs_float r of Inl e \<Rightarrow> Inl e | Inr x \<Rightarrow> Inr (fl_neg x))
          else if c = CHR ''+'' then parse_abs_float r
          else parse_abs_float (c # r))"

section \<open>The range evaluator\<close>

text \<open>
  \<open>min_val, max_val = map(float, reference_range.split('-'))\<close>: the iterator is
  consumed one element at a time, so \<open>float\<close> runs on a piece only when the unpacking
  asks for it; a missing second element and a third element are both \<open>ValueError\<close>.
\<close>

fun unpack2 :: "(py_error + 'a) list \<Rightarrow> py_error + ('a \<times> 'a)" where
  "unpack2 [] = Inl ValueError"
| "unpack2 (Inl e # rest) = Inl e"
| "unpack2 [Inr a] = Inl ValueError"
| "unpack2 (Inr a # Inl e # rest) = Inl e"
| "unpack2 [Inr a, Inr b] = Inr (a, b)"
| "unpack2 (Inr a # Inr b # Inl e # rest) = Inl e"
| "unpack2 (Inr a # Inr b # Inr c # rest) = Inl ValueError"

definition parse_range :: "string \<Rightarrow> py_error + (double \<times> double)" where
  "parse_range reference_range = unpack2 (map py_float (split_on CHR ''-'' reference_range))"

text \<open>The body of the \<open>try\<close> block.\<close>

definition range_check :: "string \<Rightarrow> string \<Rightarrow> py_error + bool" where
  "range_check val reference_range =
     (case parse_range reference_range of
        Inl e \<Rightarrow> Inl e
      | Inr (min_val, max_val) \<Rightarrow>
          (case py_float val of
             Inl e \<Rightarrow> Inl e
           | Inr test_val \<Rightarrow> Inr (fl_lt test_val min_val \<or> fl_gt test_val max_val)))"

text \<open>\<open>except (ValueError, AttributeError): return False\<close>; anything else propagates.\<close>

definition is_value_out_of_range :: "string \<Rightarrow> string \<Rightarrow> py_error + bool" where
  "is_value_out_of_range val reference_range =
     (case range_check val reference_range of
        Inr b \<Rightarrow> Inr b
      | Inl e \<Rightarrow> if e = ValueError \<or> e = AttributeError then Inr False else Inl e)"

text \<open>
  The reading of the specification: the range is cut at its first \<open>-\<close> only.
\<close>

fun split_first :: "char \<Rightarrow> string \<Rightarrow> (string \<times> string) option" where
  "split_first sep [] = None"
| "split_first sep (c # cs) =
     (if c = sep then Some ([], cs)
      else (case split_first sep cs of None \<Rightarrow> None | Some (a, b) \<Rightarrow> Some (c # a, b)))"

section \<open>Regular expressions of the catalog\<close>

text \<open>
  The patterns of \<open>LAB_TEST_PATTERNS\<close> use literals, the classes \<open>\d\<close> and \<open>\s\<close>, the
  set \<open>[:=]\<close>, the quantifiers \<open>?\<close>, \<open>*\<close> and \<open>+\<close> on one character, groups that are
  not nested, and an alternation of literal strings inside a group. A pattern is the
  list of its items in the order of the pattern string.
\<close>

datatype cclass = Lit char | Digit | Space | OneOf string

datatype quant = Once | Opt | Star | Plus

datatype item = Rep cclass quant | GroupOpen | GroupClose | AltLits "string list"

type_synonym regex = "item list"

definition lits :: "string \<Rightarrow> regex" where
  "lits s = map (\<lambda>c. Rep (Lit c) Once) s"

text \<open>
  One character against a class. With \<open>re.IGNORECASE\<close> a literal matches when both
  characters have the same lower case; \<open>\d\<close> and \<open>\s\<close> are the decimal digits and the
  white space of \<open>str\<close>.
\<close>

fun cmatch :: "bool \<Rightarrow> cclass \<Rightarrow> char \<Rightarrow> bool" where
  "cmatch ic (Lit c) x = (if ic then to_lower x = to_lower c else x = c)"
| "cmatch ic Digit x = is_decimal x"
| "cmatch ic Space x = is_space x"
| "cmatch ic (OneOf s) x = (if ic then to_lower x \<in> to_lower ` set s else x \<in> set s)"

fun match_lit :: "bool \<Rightarrow> string \<Rightarrow> string \<Rightarrow> string option" where
  "match_lit ic [] t = Some t"
| "match_lit ic (c # cs) [] = None"
| "match_lit ic (c # cs) (x # xs) = (if cmatch ic (Lit c) x then match_lit ic cs xs else None)"

text \<open>
  The backtracking matcher, anchored at the start of \<open>t\<close>. Quantifiers are greedy: the
  longer alternative is tried first and given up when the rest of the pattern fails.
  \<open>start\<close> is the text at the last \<open>(\<close>; \<open>caps\<close> are the groups closed so far. The
  result is \<open>match.groups()\<close>.
\<close>

fun item_size :: "item \<Rightarrow> nat" where
  "item_size (AltLits as) = Suc (length as)"
| "item_size (Rep c q) = 1"
| "item_size GroupOpen = 1"
| "item_size GroupClose = 1"

function rmatch :: "bool \<Rightarrow> regex \<Rightarrow> string \<Rightarrow> string \<Rightarrow> string list \<Rightarrow> string list option" where
  "rmatch ic [] t start caps = Some caps"
| "rmatch ic (GroupOpen # r) t start caps = rmatch ic r t t caps"
| "rmatch ic (GroupClose # r) t start caps =
     rmatch ic r t start (caps @ [take (length start - length t) start])"
| "rmatch ic (Rep c Once # r) [] start caps = None"
| "rmatch ic (Rep c Once # r) (x # xs) start caps =
     (if cmatch ic c x then rmatch ic r xs start caps else None)"
| "rmatch ic (Rep c Opt # r) [] start caps = rmatch ic r [] start caps"
| "rmatch ic (Rep c Opt # r) (x # xs) start caps =
     (if cmatch ic c x then
        (case rmatch ic r xs start caps of
           Some g \<Rightarrow> Some g
         | None \<Rightarrow> rmatch ic r (x # xs) start caps)
      else rmatch ic r (x # xs) start caps)"
| "rmatch ic (Rep c Star # r) [] start caps = rmatch ic r [] start caps"
| "rmatch ic (Rep c Star # r) (x # xs) start caps =
     (if cmatch ic c x then
        (case rmatch ic (Rep c Star # r) xs start caps of
           Some g \<Rightarrow> Some g
         | None \<Rightarrow> rmatch ic r (x # xs) start caps)
      else rmatch ic r (x # xs) start caps)"
| "rmatch ic (Rep c Plus # r) [] start caps = None"
| "rmatch ic (Rep c Plus # r) (x # xs) start caps =
     (if cmatch ic c x then rmatch ic (Rep c Star # r) xs start caps else None)"
| "rmatch ic (AltLits [] # r) t start caps = None"
| "rmatch ic (AltLits (a # as) # r) t start caps =
     (case match_lit ic a t of
        None \<Rightarrow> rmatch ic (AltLits as # r) t start caps
      | Some t' \<Rightarrow>
          (case rmatch ic r t' start caps of
             Some g \<Rightarrow> Some g
           | None \<Rightarrow> rmatch ic (AltLits as # r) t start caps))"
  by pat_completeness auto

termination rmatch
  by (relation "measures [\<lambda>(ic, p, t, start, caps). sum_list (map item_size p),
                          \<lambda>(ic, p, t, start, caps). length t]") auto

text \<open>
  \<open>re.search(pattern, text, flags)\<close>: the match at the leftmost position of the text
  where the pattern matches, \<open>None\<close> when there is none.
\<close>

fun re_search :: "regex \<Rightarrow> string \<Rightarrow> bool \<Rightarrow> string list option" where
  "re_search p [] ic = rmatch ic p [] [] []"
| "re_search p (x # xs) ic =
     (case rmatch ic p (x # xs) [] [] of
        Some g \<Rightarrow> Some g
      | None \<Rightarrow> re_search p xs ic)"

text \<open>\<open>match.group(n)\<close> for \<open>n \<ge> 1\<close>: \<open>IndexError\<close> when the pattern has no such group.\<close>

definition group :: "string list \<Rightarrow> nat \<Rightarrow> py_error + string" where
  "group m n = (if 1 \<le> n \<and> n \<le> length m then Inr (m ! (n - 1)) else Inl IndexError)"

section \<open>The catalog and the pattern matcher\<close>

text \<open>
  An entry of \<open>LAB_TEST_PATTERNS\<close>. The program reads \<open>name\<close> and \<open>pattern\<close> with
  \<open>test[...]\<close> and the other two keys with \<open>test.get\<close>, so these may be absent.
\<close>

record test_definition =
  name :: string
  pattern :: regex
  unit :: "string option"
  reference_range :: "string option"

definition sep_items :: regex where
  "sep_items = [Rep Space Star, Rep (OneOf '':='') Opt, Rep Space Star]"

definition value_items :: regex where
  "value_items = [GroupOpen, Rep Digit Plus, Rep (Lit CHR ''.'') Opt, Rep Digit Star, GroupClose]"

definition LAB_TEST_PATTERNS :: "test_definition list" where
  "LAB_TEST_PATTERNS =
    [\<lparr>name = ''HB ESTIMATION'',
      pattern = lits ''HB'' @ [Rep Space Plus] @ lits ''ESTIMATION'' @ sep_items @ value_items
        @ [Rep Space Star, GroupOpen] @ lits ''g/dL'' @ [GroupClose],
      unit = Some ''g/dL'',
      reference_range = Some ''12.0-15.0''\<rparr>,
     \<lparr>name = ''PCV (PACKED CELL VOLUME)'',
      pattern = lits ''PCV'' @ [Rep Space Star, Rep (Lit CHR ''('') Opt] @ lits ''PACKED''
        @ [Rep Space Plus] @ lits ''CELL'' @ [Rep Space Plus] @ lits ''VOLUME''
        @ [Rep (Lit CHR '')'') Opt] @ sep_items @ value_items
        @ [Rep Space Star, GroupOpen] @ lits ''%'' @ [GroupClose],
      unit = Some ''%'',
      reference_range = Some ''36.0-46.0''\<rparr>,
     \<lparr>name = ''RBC COUNT'',
      pattern = lits ''RBC'' @ [Rep Space Plus] @ lits ''COUNT'' @ sep_items @ value_items
        @ [Rep Space Star, GroupOpen] @ lits ''million/cmm'' @ [GroupClose],
      unit = Some ''million/cmm'',
      reference_range = Some ''4.5-5.5''\<rparr>,
     \<lparr>name = ''WBC COUNT'',
      pattern = lits ''WBC'' @ [Rep Space Plus] @ lits ''COUNT'' @ sep_items @ value_items
        @ [Rep Space Star, GroupOpen, AltLits [''cells/cmm'', ''/cmm''], GroupClose],
      unit = Some ''/cmm'',
      reference_range = Some ''4000-11000''\<rparr>,
     \<lparr>name = ''PLATELET COUNT'',
      pattern = lits ''PLATELET'' @ [Rep Space Plus] @ lits ''COUNT'' @ sep_items @ value_items
        @ [Rep Space Star, GroupOpen, AltLits [''lakhs/cmm'', ''/cmm''], GroupClose],
      unit = Some ''lakhs/cmm'',
      reference_range = Some ''1.5-4.5''\<rparr>]"

record extracted_result =
  test_name :: string
  test_value :: string
  bio_reference_range :: string
  test_unit :: string
  lab_test_out_of_range :: bool

text \<open>
  The loop of \<open>extract_lab_tests\<close> over a catalog, with the list \<open>results\<close> it appends
  to. The default of \<open>test.get("unit", ...)\<close> is evaluated before the lookup, as in
  Python.
\<close>

fun extract_loop ::
  "test_definition list \<Rightarrow> string \<Rightarrow> extracted_result list \<Rightarrow> py_error + extracted_result list"
where
  "extract_loop [] text results = Inr results"
| "extract_loop (test # rest) text results =
     (case re_search (pattern test) text True of
        None \<Rightarrow> extract_loop rest text results
      | Some m \<Rightarrow>
          (case group m 1 of
             Inl e \<Rightarrow> Inl e
           | Inr val \<Rightarrow>
               (case (if 1 < length m then group m 2 else Inr []) of
                  Inl e \<Rightarrow> Inl e
                | Inr captured \<Rightarrow>
                    (let u = (case unit test of Some u' \<Rightarrow> u' | None \<Rightarrow> captured);
                         rr = (case reference_range test of Some r \<Rightarrow> r | None \<Rightarrow> [])
                     in case is_value_out_of_range val rr of
                          Inl e \<Rightarrow> Inl e
                        | Inr out_of_range \<Rightarrow>
                            extract_loop rest text
                              (results @
                                [\<lparr>test_name = name test,
                                  test_value = val,
                                  bio_reference_range = rr,
                                  test_unit = u,
                                  lab_test_out_of_range = out_of_range\<rparr>])))))"

definition extract_lab_tests :: "string \<Rightarrow> py_error + extracted_result list" where
  "extract_lab_tests text = extract_loop LAB_TEST_PATTERNS text []"

text \<open>
  What the loop computes, entry by entry: an entry is \<open>matched\<close> when the search finds
  its pattern, and \<open>result_of\<close> is the record the loop body appends for it.
\<close>

definition matched :: "string \<Rightarrow> test_definition \<Rightarrow> bool" where
  "matched text test = (re_search (pattern test) text True \<noteq> None)"

definition result_of :: "string \<Rightarrow> test_definition \<Rightarrow> extracted_result" where
  "result_of text test =
     (let m = (case re_search (pattern test) text True of None \<Rightarrow> [] | Some g \<Rightarrow> g);
          val = (case m of [] \<Rightarrow> [] | v # rest \<Rightarrow> v);
          captured = (case m of v # c # rest \<Rightarrow> c | _ \<Rightarrow> []);
          rr = (case reference_range test of Some r \<Rightarrow> r | None \<Rightarrow> [])
      in \<lparr>test_name = name test,
          test_value = val,
          bio_reference_range = rr,
          test_unit = (case unit test of Some u \<Rightarrow> u | None \<Rightarrow> captured),
          lab_test_out_of_range = (is_value_out_of_range val rr = Inr True)\<rparr>)"

text \<open>
  The first match in the words of the specification: the anchored match at the least
  position of the text where the pattern matches at all.
\<close>

definition first_match :: "regex \<Rightarrow> string \<Rightarrow> bool \<Rightarrow> string list option" where
  "first_match p text ic =
     (case filter (\<lambda>i. rmatch ic p (drop i text) [] [] \<noteq> None) [0..<Suc (length text)] of
        [] \<Rightarrow> None
      | i # rest \<Rightarrow> rmatch ic p (drop i text) [] [])"

text \<open>The number of groups of a pattern, and the shape \<open>\d+\.?\d*\<close> of a whole string.\<close>

definition n_close :: "regex \<Rightarrow> nat" where
  "n_close p = count_list p GroupClose"

definition numeric_shape :: "string \<Rightarrow> bool" where
  "numeric_shape s =
     (takeWhile is_decimal s \<noteq> [] \<and>
      (case dropWhile is_decimal s of
         [] \<Rightarrow> True
       | c # r \<Rightarrow> c = CHR ''.'' \<and> list_all is_decimal r))"

text \<open>How many characters a quantifier may take, and the items that take characters.\<close>

fun qok :: "quant \<Rightarrow> nat \<Rightarrow> bool" where
  "qok Once n = (n = 1)"
| "qok Opt n = (n \<le> 1)"
| "qok Star n = True"
| "qok Plus n = (1 \<le> n)"

definition is_rep :: "item \<Rightarrow> bool" where
  "is_rep i = (case i of Rep c q \<Rightarrow> True | _ \<Rightarrow> False)"

section \<open>Image preprocessing and text recognition\<close>

text \<open>
  OpenCV, NumPy, PIL and Tesseract are not part of the repository. What the program
  needs from them is a parameter: the decoder (\<open>cv2.imdecode\<close> gives \<open>None\<close> for a
  buffer that is not an image, and may raise), the grey value of a BGR pixel
  (\<open>cv2.cvtColor\<close> works pixel by pixel), the threshold that Otsu's method selects,
  the exception \<open>cv2.cvtColor\<close> raises for an empty source, and the recognizer
  (\<open>pytesseract.image_to_string\<close>). An exception of these libraries is an instance
  of \<open>Exception\<close>, kept with its text \<open>str(e)\<close>.
\<close>

datatype py_exception = Exception string

type_synonym bgr_pixel = "8 word \<times> 8 word \<times> 8 word"
type_synonym bgr_image = "bgr_pixel list list"
type_synonym gray_image = "8 word list list"

record externals =
  imdecode :: "8 word list \<Rightarrow> py_exception + bgr_image option"
  gray_of :: "bgr_pixel \<Rightarrow> 8 word"
  otsu :: "gray_image \<Rightarrow> nat"
  empty_source_error :: py_exception
  image_to_string :: "gray_image \<Rightarrow> py_exception + string"

definition cvtColor_BGR2GRAY :: "externals \<Rightarrow> bgr_image option \<Rightarrow> py_exception + gray_image" where
  "cvtColor_BGR2GRAY ext src =
     (case src of
        None \<Rightarrow> Inl (empty_source_error ext)
      | Some img \<Rightarrow> Inr (map (map (gray_of ext)) img))"

text \<open>
  \<open>cv2.threshold(src, thresh, maxval, THRESH_BINARY_INV + THRESH_OTSU)\<close>: with the
  Otsu flag the threshold is the one Otsu's method selects and \<open>thresh\<close> is not
  used; a pixel above the threshold becomes 0, any other pixel \<open>maxval\<close>. The result is
  the pair of the threshold and the image.
\<close>

definition threshold_binary_inv_otsu ::
  "externals \<Rightarrow> gray_image \<Rightarrow> nat \<Rightarrow> 8 word \<Rightarrow> nat \<times> gray_image" where
  "threshold_binary_inv_otsu ext src thresh maxval =
     (let t = otsu ext src
      in (t, map (map (\<lambda>p. if t < unat p then 0 else maxval)) src))"

definition preprocess_image :: "externals \<Rightarrow> bgr_image option \<Rightarrow> py_exception + gray_image" where
  "preprocess_image ext img =
     (case cvtColor_BGR2GRAY ext img of
        Inl e \<Rightarrow> Inl e
      | Inr gray \<Rightarrow>
          (let binary = snd (threshold_binary_inv_otsu ext gray 150 255)
           in Inr (map (map (\<lambda>p. 255 - p)) binary)))"

datatype http_exception = HTTPException nat string

text \<open>The body of the \<open>try\<close> block of \<open>extract_text_from_image\<close>.\<close>

definition recognize :: "externals \<Rightarrow> 8 word list \<Rightarrow> py_exception + string" where
  "recognize ext image_data =
     (case imdecode ext image_data of
        Inl e \<Rightarrow> Inl e
      | Inr img \<Rightarrow>
          (case preprocess_image ext img of
             Inl e \<Rightarrow> Inl e
           | Inr processed_img \<Rightarrow> image_to_string ext processed_img))"

definition extract_text_from_image :: "externals \<Rightarrow> 8 word list \<Rightarrow> http_exception + string" where
  "extract_text_from_image ext image_data =
     (case recognize ext image_data of
        Inr text \<Rightarrow> Inr text
      | Inl (Exception msg) \<Rightarrow> Inl (HTTPException 500 (''Error processing image: '' @ msg)))"

section \<open>The request handler\<close>

record upload_file =
  content_type :: "string option"
  contents :: "8 word list"

record response =
  is_success :: bool
  message :: "string option"
  data :: "extracted_result list"

text \<open>
  A request ends with a response, with an \<open>HTTPException\<close>, or with an exception that
  no handler of the program catches.
\<close>

datatype failure = Http http_exception | Uncaught py_error

definition get_lab_tests :: "externals \<Rightarrow> upload_file option \<Rightarrow> failure + response" where
  "get_lab_tests ext file =
     (case file of
        None \<Rightarrow> Inl (Http (HTTPException 400 ''No file uploaded''))
      | Some f \<Rightarrow>
          (case content_type f of
             None \<Rightarrow> Inl (Uncaught AttributeError)
           | Some ct \<Rightarrow>
               if take 6 ct \<noteq> ''image/'' then
                 Inl (Http (HTTPException 400 ''Uploaded file is not an image''))
               else
                 (case extract_text_from_image ext (contents f) of
                    Inl h \<Rightarrow> Inl (Http h)
                  | Inr extracted_text \<Rightarrow>
                      (case extract_lab_tests extracted_text of
                         Inl e \<Rightarrow> Inl (Uncaught e)
                       | Inr lab_tests \<Rightarrow>
                           if lab_tests = [] then
                             Inr \<lparr>is_success = False,
                                  message = Some ''No lab tests could be identified in the image'',
                                  data = []\<rparr>
                           else
                             Inr \<lparr>is_success = True, message = None, data = lab_tests\<rparr>))))"

section \<open>Properties of the range evaluator\<close>

lemma split_on_no_sep: "sep \<notin> set s \<Longrightarrow> split_on sep s = [s]"
  by (induction s) auto

lemma split_on_append: "sep \<notin> set a \<Longrightarrow> split_on sep (a @ sep # b) = a # split_on sep b"
  by (induction a) auto

lemma split_on_two: "sep \<notin> set a \<Longrightarrow> sep \<notin> set b \<Longrightarrow> split_on sep (a @ sep # b) = [a, b]"
  by (simp add: split_on_append split_on_no_sep)

lemma split_on_not_Nil: "split_on sep s \<noteq> []"
  by (induction s) (auto split: list.splits)

lemma split_on_sep_length: "sep \<in> set s \<Longrightarrow> 2 \<le> length (split_on sep s)"
proof (induction s)
  case Nil
  then show ?case by simp
next
  case (Cons c s)
  show ?case
  proof (cases "c = sep")
    case True
    have "split_on sep s \<noteq> []" by (rule split_on_not_Nil)
    then have "1 \<le> length (split_on sep s)" by (cases "split_on sep s") auto
    with True show ?thesis by simp
  next
    case False
    with Cons.prems have "sep \<in> set s" by simp
    then have "2 \<le> length (split_on sep s)" by (rule Cons.IH)
    with False show ?thesis by (auto split: list.splits)
  qed
qed

lemma split_first_Some:
  "split_first sep r = Some (a, b) \<Longrightarrow> r = a @ sep # b \<and> sep \<notin> set a"
  by (induction r arbitrary: a) (auto split: if_splits option.splits)

lemma parse_abs_float_error: "parse_abs_float s = Inl e \<Longrightarrow> e = ValueError"
  by (auto simp: parse_abs_float_def Let_def split: if_splits option.splits)

lemma py_float_error: "py_float s = Inl e \<Longrightarrow> e = ValueError"
  by (auto simp: py_float_def split: list.splits if_splits sum.splits dest: parse_abs_float_error)

lemma unpack2_error:
  "unpack2 xs = Inl e \<Longrightarrow> (\<And>x e'. x \<in> set xs \<Longrightarrow> x = Inl e' \<Longrightarrow> e' = ValueError) \<Longrightarrow> e = ValueError"
  by (induction xs rule: unpack2.induct) auto

lemma parse_range_error: "parse_range r = Inl e \<Longrightarrow> e = ValueError"
  unfolding parse_range_def
  by (erule unpack2_error) (auto dest: py_float_error [OF sym])

lemma range_check_error: "range_check v r = Inl e \<Longrightarrow> e = ValueError"
  by (auto simp: range_check_def split: sum.splits prod.splits dest: parse_range_error py_float_error)

lemma unpack2_long: "3 \<le> length xs \<Longrightarrow> \<exists>e. unpack2 xs = Inl e"
  by (induction xs rule: unpack2.induct) auto

lemma bit_length_0: "bit_length 0 = 0"
  by (simp add: bit_length.simps)

lemma bit_length_Suc_0: "bit_length (Suc 0) = Suc 0"
  by (simp add: bit_length.simps)

lemma bit_length_Bit0: "bit_length (numeral (Num.Bit0 k)) = Suc (bit_length (numeral k))"
  by (subst bit_length.simps) (simp add: numeral_Bit0_div_2)

lemma bit_length_Bit1: "bit_length (numeral (Num.Bit1 k)) = Suc (bit_length (numeral k))"
  by (subst bit_length.simps) (simp add: numeral_Bit1_div_2)

lemmas float_eval = py_float_def strip_float_def is_float_space_def parse_abs_float_def
  to_lower_def parse_number_def digit_or_us_def is_decimal_def parse_exponent_def dec_val_def
  digit_val_def round_double_def floor_log2_def round_half_even_def pow2_def Let_def fl_neg_def
  bit_length_0 bit_length_Suc_0 bit_length_Bit0 bit_length_Bit1

lemmas range_eval = is_value_out_of_range_def range_check_def parse_range_def fl_gt_def


lemma fl_le_not_lt: "fl_le x y \<Longrightarrow> \<not> fl_lt y x"
  by (cases x; cases y) (auto simp: fl_le_def)

lemma parse_range_two:
  assumes "CHR ''-'' \<notin> set a" and "CHR ''-'' \<notin> set b"
  shows "parse_range (a @ CHR ''-'' # b) = unpack2 [py_float a, py_float b]"
  using assms by (simp add: parse_range_def split_on_two)

lemma parse_range_many:
  assumes "CHR ''-'' \<notin> set a" and "CHR ''-'' \<in> set b"
  shows "\<exists>e. parse_range (a @ CHR ''-'' # b) = Inl e"
proof -
  from assms(2) have "2 \<le> length (split_on CHR ''-'' b)" by (rule split_on_sep_length)
  then have "3 \<le> length (map py_float (split_on CHR ''-'' (a @ CHR ''-'' # b)))"
    using assms(1) by (simp add: split_on_append)
  then show ?thesis unfolding parse_range_def by (rule unpack2_long)
qed

lemma out_of_range_parsed:
  assumes "parse_range r = Inr (mn, mx)" and "py_float v = Inr fv"
  shows "is_value_out_of_range v r = Inr (fl_lt fv mn \<or> fl_gt fv mx)"
  using assms by (simp add: is_value_out_of_range_def range_check_def)

lemma out_of_range_bad_range:
  assumes "parse_range r = Inl e"
  shows "is_value_out_of_range v r = Inr False"
proof -
  from assms have "e = ValueError" by (rule parse_range_error)
  with assms show ?thesis by (simp add: is_value_out_of_range_def range_check_def)
qed

text \<open>
  C1, as amended. For a range string \<open>a-b\<close> whose two parts contain no \<open>-\<close> and are
  accepted by \<open>float()\<close> (giving \<open>mn\<close> and \<open>mx\<close>), and a value string that
  \<open>float()\<close> accepts (giving \<open>fv\<close>), the result is true exactly when \<open>fv < mn\<close> or
  \<open>fv > mx\<close> as doubles, and false whenever \<open>mn \<le> fv \<le> mx\<close>: both bounds are
  inclusive.
\<close>

theorem C1_out_of_range_iff:
  assumes "CHR ''-'' \<notin> set a" and "CHR ''-'' \<notin> set b"
    and "py_float a = Inr mn" and "py_float b = Inr mx" and "py_float v = Inr fv"
  shows "is_value_out_of_range v (a @ ''-'' @ b) = Inr (fl_lt fv mn \<or> fl_gt fv mx) \<and>
         (fl_le mn fv \<and> fl_le fv mx \<longrightarrow> is_value_out_of_range v (a @ ''-'' @ b) = Inr False)"
proof -
  from assms(1-4) have "parse_range (a @ CHR ''-'' # b) = Inr (mn, mx)"
    by (simp add: parse_range_two)
  then have r: "is_value_out_of_range v (a @ ''-'' @ b) = Inr (fl_lt fv mn \<or> fl_gt fv mx)"
    using assms(5) by (simp add: out_of_range_parsed)
  moreover have "\<not> (fl_lt fv mn \<or> fl_gt fv mx)" if "fl_le mn fv \<and> fl_le fv mx"
    using that by (auto simp: fl_gt_def dest: fl_le_not_lt)
  ultimately show ?thesis by simp
qed

theorem C1_out_of_range_iff_witness:
  "is_value_out_of_range ''10.5'' (''12.0'' @ ''-'' @ ''15.0'') = Inr True \<and>
   is_value_out_of_range ''15.0'' (''12.0'' @ ''-'' @ ''15.0'') = Inr False"
proof -
  have a: "CHR ''-'' \<notin> set ''12.0''" and b: "CHR ''-'' \<notin> set ''15.0''" by simp_all
  have mn: "py_float ''12.0'' = Inr (Fin 12)" by (simp add: float_eval)
  have mx: "py_float ''15.0'' = Inr (Fin 15)" by (simp add: float_eval)
  have v1: "py_float ''10.5'' = Inr (Fin (21 / 2))" by (simp add: float_eval)
  from C1_out_of_range_iff [OF a b mn mx v1] C1_out_of_range_iff [OF a b mn mx mx]
  show ?thesis by (simp add: fl_gt_def fl_le_def)
qed

text \<open>
  C1 as stated fails for a negative lower bound: in \<open>-5-10\<close> the leading sign is
  taken for a separator, the range does not parse, and the value 20 is reported as
  within range although \<open>20 > 10\<close>.
\<close>

theorem C1_negative_bound_counterexample:
  "py_float ''-5'' = Inr (Fin (- 5)) \<and> py_float ''10'' = Inr (Fin 10) \<and>
   py_float ''20'' = Inr (Fin 20) \<and> fl_gt (Fin 20) (Fin 10) \<and>
   is_value_out_of_range ''20'' (''-5'' @ ''-'' @ ''10'') = Inr False"
  by (simp add: range_eval float_eval)

text \<open>
  C2. Whatever the two strings are, \<open>is_value_out_of_range\<close> returns a boolean and
  raises nothing; when the range or the value does not parse, the boolean is \<open>False\<close>.
\<close>

theorem C2_never_raises: "(\<exists>b. is_value_out_of_range v r = Inr b) \<and>
   (isl (parse_range r) \<or> isl (py_float v) \<longrightarrow> is_value_out_of_range v r = Inr False)"
proof -
  have a: "\<exists>b. is_value_out_of_range v r = Inr b"
  proof (cases "range_check v r")
    case (Inl e)
    then have "e = ValueError" by (rule range_check_error)
    with Inl show ?thesis by (auto simp add: is_value_out_of_range_def)
  next
    case (Inr b)
    then show ?thesis by (simp add: is_value_out_of_range_def)
  qed
  have b: "is_value_out_of_range v r = Inr False" if "isl (parse_range r) \<or> isl (py_float v)"
  proof -
    from that have "\<exists>e. range_check v r = Inl e"
      by (cases "parse_range r"; cases "py_float v")
        (auto simp: range_check_def split: prod.splits)
    then obtain e where e: "range_check v r = Inl e" ..
    then have "e = ValueError" by (rule range_check_error)
    with e show ?thesis by (simp add: is_value_out_of_range_def)
  qed
  from a b show ?thesis by blast
qed

theorem C2_never_raises_witness:
  "isl (py_float ''abc'') \<and> is_value_out_of_range ''abc'' ''12.0-15.0'' = Inr False \<and>
   isl (parse_range ''bad-range'') \<and> is_value_out_of_range ''13.0'' ''bad-range'' = Inr False"
proof -
  have h1: "isl (py_float ''abc'')" by code_simp
  have h2: "isl (parse_range ''bad-range'')" by code_simp
  from h1 h2 C2_never_raises [of "''abc''" "''12.0-15.0''"] C2_never_raises [of "''13.0''" "''bad-range''"]
  show ?thesis by blast
qed

text \<open>
  C6, as amended. The range string is cut at every \<open>-\<close>, and exactly two pieces are
  required. With \<open>a\<close> and \<open>b\<close> the parts before and after the first \<open>-\<close>: when
  \<open>b\<close> contains no further \<open>-\<close> and both parts are accepted by \<open>float()\<close>, the
  comparison uses exactly those two numbers; when \<open>b\<close> contains another \<open>-\<close>, or
  the string has no \<open>-\<close> at all, the result is false.
\<close>

theorem C6_split_every_dash:
  "case split_first CHR ''-'' r of
     None \<Rightarrow> is_value_out_of_range v r = Inr False
   | Some (a, b) \<Rightarrow>
       (CHR ''-'' \<in> set b \<longrightarrow> is_value_out_of_range v r = Inr False) \<and>
       (CHR ''-'' \<notin> set b \<longrightarrow> py_float a = Inr mn \<longrightarrow> py_float b = Inr mx \<longrightarrow>
          parse_range r = Inr (mn, mx) \<and>
          (py_float v = Inr fv \<longrightarrow>
             is_value_out_of_range v r = Inr (fl_lt fv mn \<or> fl_gt fv mx)))"
proof (cases "split_first CHR ''-'' r")
  case None
  then have "CHR ''-'' \<notin> set r"
    by (induction r) (auto split: if_splits option.splits)
  then have "parse_range r = Inl ValueError"
    by (cases "py_float r") (simp_all add: parse_range_def split_on_no_sep py_float_error)
  with None show ?thesis by (simp add: out_of_range_bad_range)
next
  case (Some p)
  obtain a b where p: "p = (a, b)" by (cases p)
  with Some have r: "r = a @ CHR ''-'' # b" and a: "CHR ''-'' \<notin> set a"
    using split_first_Some by blast+
  have many: "is_value_out_of_range v r = Inr False" if "CHR ''-'' \<in> set b"
    using parse_range_many [OF a that] r by (auto simp: out_of_range_bad_range)
  have two: "parse_range r = Inr (mn, mx)"
    if "CHR ''-'' \<notin> set b" "py_float a = Inr mn" "py_float b = Inr mx"
    using that a r by (simp add: parse_range_two)
  from many two Some p show ?thesis by (auto simp: out_of_range_parsed)
qed

theorem C6_split_every_dash_witness:
  "is_value_out_of_range ''10.5'' ''12.0-15.0'' = Inr True \<and>
   parse_range ''12.0-15.0'' = Inr (Fin 12, Fin 15) \<and>
   is_value_out_of_range ''4'' ''5--3'' = Inr False \<and>
   is_value_out_of_range ''13.0'' ''12.0'' = Inr False"
proof -
  have s1: "split_first CHR ''-'' ''12.0-15.0'' = Some (''12.0'', ''15.0'')" by simp
  have s2: "split_first CHR ''-'' ''5--3'' = Some (''5'', ''-3'')" by simp
  have s3: "split_first CHR ''-'' ''12.0'' = None" by simp
  have mn: "py_float ''12.0'' = Inr (Fin 12)" by (simp add: float_eval)
  have mx: "py_float ''15.0'' = Inr (Fin 15)" by (simp add: float_eval)
  have v1: "py_float ''10.5'' = Inr (Fin (21 / 2))" by (simp add: float_eval)
  from C6_split_every_dash [where r = "''12.0-15.0''" and v = "''10.5''" and mn = "Fin 12"
      and mx = "Fin 15" and fv = "Fin (21 / 2)"]
    C6_split_every_dash [where r = "''5--3''" and v = "''4''"]
    C6_split_every_dash [where r = "''12.0''" and v = "''13.0''"]
    s1 s2 s3 mn mx v1
  show ?thesis by (simp add: fl_gt_def)
qed

text \<open>
  C6 as stated fails for \<open>5--3\<close>: the parts around the first \<open>-\<close> are the numbers
  \<open>5\<close> and \<open>-3\<close>, and \<open>4 < 5\<close>, yet the function answers false, because the
  second \<open>-\<close> is a separator too and three pieces do not unpack into two.
\<close>

theorem C6_first_dash_counterexample:
  "split_first CHR ''-'' ''5--3'' = Some (''5'', ''-3'') \<and>
   py_float ''5'' = Inr (Fin 5) \<and> py_float ''-3'' = Inr (Fin (- 3)) \<and>
   py_float ''4'' = Inr (Fin 4) \<and> fl_lt (Fin 4) (Fin 5) \<and>
   is_value_out_of_range ''4'' ''5--3'' = Inr False"
  by (simp add: range_eval float_eval)

section \<open>Properties of the matcher\<close>

lemma rmatch_caps:
  "rmatch ic p t st caps = Some g \<Longrightarrow> \<exists>more. g = caps @ more \<and> length more = n_close p"
  by (induction ic p t st caps arbitrary: g rule: rmatch.induct)
    (auto simp: n_close_def split: if_splits option.splits)

lemma star_step:
  "rmatch ic (Rep c Star # r) t st caps = Some g \<Longrightarrow>
   \<exists>u t'. t = u @ t' \<and> list_all (cmatch ic c) u \<and> rmatch ic r t' st caps = Some g"
proof (induction t)
  case Nil
  then show ?case by auto
next
  case (Cons x xs)
  show ?case
  proof (cases "cmatch ic c x \<and> rmatch ic (Rep c Star # r) xs st caps \<noteq> None")
    case True
    with Cons.prems have "rmatch ic (Rep c Star # r) xs st caps = Some g" by auto
    from Cons.IH [OF this] obtain u t' where
      "xs = u @ t'" "list_all (cmatch ic c) u" "rmatch ic r t' st caps = Some g" by blast
    with True have "x # xs = (x # u) @ t' \<and> list_all (cmatch ic c) (x # u) \<and>
      rmatch ic r t' st caps = Some g" by simp
    then show ?thesis by blast
  next
    case False
    with Cons.prems have "rmatch ic r (x # xs) st caps = Some g"
      by (auto split: if_splits option.splits)
    then have "x # xs = [] @ (x # xs) \<and> list_all (cmatch ic c) [] \<and>
      rmatch ic r (x # xs) st caps = Some g" by simp
    then show ?thesis by blast
  qed
qed

lemma rep_step:
  assumes "rmatch ic (Rep c q # r) t st caps = Some g"
  shows "\<exists>u t'. t = u @ t' \<and> list_all (cmatch ic c) u \<and> qok q (length u) \<and>
           rmatch ic r t' st caps = Some g"
proof (cases q)
  case Once
  with assms obtain x xs where "t = x # xs" "cmatch ic c x" "rmatch ic r xs st caps = Some g"
    by (cases t) (auto split: if_splits)
  then have "t = [x] @ xs \<and> list_all (cmatch ic c) [x] \<and> qok Once (length [x]) \<and>
    rmatch ic r xs st caps = Some g" by simp
  with Once show ?thesis by blast
next
  case Opt
  show ?thesis
  proof (cases "\<exists>x xs. t = x # xs \<and> cmatch ic c x \<and> rmatch ic r xs st caps = Some g")
    case True
    then obtain x xs where "t = x # xs" "cmatch ic c x" "rmatch ic r xs st caps = Some g"
      by blast
    then have "t = [x] @ xs \<and> list_all (cmatch ic c) [x] \<and> qok Opt (length [x]) \<and>
      rmatch ic r xs st caps = Some g" by simp
    with Opt show ?thesis by blast
  next
    case False
    with assms Opt have "rmatch ic r t st caps = Some g"
      by (cases t) (auto split: if_splits option.splits)
    then have "t = [] @ t \<and> list_all (cmatch ic c) [] \<and> qok Opt (length ([]::string)) \<and>
      rmatch ic r t st caps = Some g" by simp
    with Opt show ?thesis by blast
  qed
next
  case Star
  with assms star_step [of ic c r t st caps g] show ?thesis by auto
next
  case Plus
  with assms obtain x xs where x: "t = x # xs" "cmatch ic c x"
    and "rmatch ic (Rep c Star # r) xs st caps = Some g"
    by (cases t) (auto split: if_splits)
  from star_step [OF this(3)] obtain u t' where
    "xs = u @ t'" "list_all (cmatch ic c) u" "rmatch ic r t' st caps = Some g" by blast
  with x have "t = (x # u) @ t' \<and> list_all (cmatch ic c) (x # u) \<and> qok Plus (length (x # u)) \<and>
    rmatch ic r t' st caps = Some g" by simp
  with Plus show ?thesis by blast
qed

lemma skip_reps:
  "list_all is_rep p1 \<Longrightarrow> rmatch ic (p1 @ r) t st caps = Some g \<Longrightarrow>
   \<exists>t'. rmatch ic r t' st caps = Some g"
proof (induction p1 arbitrary: t)
  case Nil
  then show ?case by auto
next
  case (Cons i p1)
  from Cons.prems(1) obtain c q where i: "i = Rep c q"
    by (cases i) (auto simp: is_rep_def)
  with Cons.prems(2) have "rmatch ic (Rep c q # (p1 @ r)) t st caps = Some g" by simp
  from rep_step [OF this] obtain t' where "rmatch ic (p1 @ r) t' st caps = Some g" by blast
  with Cons.IH Cons.prems(1) show ?case by auto
qed

lemma re_search_anchor:
  "re_search p text ic = Some g \<Longrightarrow> \<exists>t. rmatch ic p t [] [] = Some g"
  by (induction "text") (auto split: option.splits)

lemma decimal_not_special:
  "is_decimal c \<Longrightarrow> \<not> is_float_space c \<and> c \<noteq> CHR ''-'' \<and> c \<noteq> CHR ''+'' \<and> c \<noteq> CHR ''.''
     \<and> c \<noteq> CHR ''_'' \<and> to_lower c = c \<and> c \<noteq> CHR ''i'' \<and> c \<noteq> CHR ''n''"
  by (auto simp: is_decimal_def is_float_space_def to_lower_def Let_def)

lemma to_lower_dot: "to_lower x = to_lower CHR ''.'' \<Longrightarrow> x = CHR ''.''"
proof -
  assume a: "to_lower x = to_lower CHR ''.''"
  have d: "to_lower CHR ''.'' = CHR ''.''" by (simp add: to_lower_def)
  show ?thesis
  proof (cases "(65 \<le> (of_char x :: nat) \<and> (of_char x :: nat) \<le> 90) \<or>
      (192 \<le> (of_char x :: nat) \<and> (of_char x :: nat) \<le> 222 \<and> (of_char x :: nat) \<noteq> 215)")
    case True
    with a d have "char_of ((of_char x :: nat) + 32) = CHR ''.''"
      by (simp add: to_lower_def Let_def)
    then have "take_bit 8 ((of_char x :: nat) + 32) = of_char CHR ''.''"
      by (simp only: char_of_eq_iff)
    then have "((of_char x :: nat) + 32) mod 256 = 46" by (simp add: take_bit_eq_mod)
    with True show ?thesis by auto
  next
    case False
    with a d show ?thesis by (simp add: to_lower_def Let_def)
  qed
qed

lemma value_group:
  assumes "rmatch ic (value_items @ tail) t st caps = Some g"
  shows "\<exists>u1 u2 u3 t3. u1 \<noteq> [] \<and> list_all is_decimal u1 \<and> (u2 = [] \<or> u2 = ''.'') \<and>
           list_all is_decimal u3 \<and> rmatch ic tail t3 t (caps @ [u1 @ u2 @ u3]) = Some g"
proof -
  from assms have "rmatch ic (Rep Digit Plus # Rep (Lit CHR ''.'') Opt # Rep Digit Star
      # GroupClose # tail) t t caps = Some g"
    by (simp add: value_items_def)
  from rep_step [OF this] obtain u1 t1 where 1: "t = u1 @ t1" "list_all (cmatch ic Digit) u1"
    "qok Plus (length u1)"
    "rmatch ic (Rep (Lit CHR ''.'') Opt # Rep Digit Star # GroupClose # tail) t1 t caps = Some g"
    by blast
  from rep_step [OF 1(4)] obtain u2 t2 where 2: "t1 = u2 @ t2"
    "list_all (cmatch ic (Lit CHR ''.'')) u2" "qok Opt (length u2)"
    "rmatch ic (Rep Digit Star # GroupClose # tail) t2 t caps = Some g"
    by blast
  from rep_step [OF 2(4)] obtain u3 t3 where 3: "t2 = u3 @ t3" "list_all (cmatch ic Digit) u3"
    "rmatch ic (GroupClose # tail) t3 t caps = Some g"
    by blast
  have t: "t = (u1 @ u2 @ u3) @ t3" using 1(1) 2(1) 3(1) by simp
  have "take (length t - length t3) t = u1 @ u2 @ u3" by (subst (1 2) t) simp
  with 3(3) have r: "rmatch ic tail t3 t (caps @ [u1 @ u2 @ u3]) = Some g" by simp
  have u1: "u1 \<noteq> []" using 1(3) by auto
  have d1: "list_all is_decimal u1" using 1(2) by (simp add: list_all_iff)
  have d3: "list_all is_decimal u3" using 3(2) by (simp add: list_all_iff)
  have u2: "u2 = [] \<or> u2 = ''.''"
  proof (cases u2)
    case Nil
    then show ?thesis by simp
  next
    case (Cons x xs)
    with 2(3) have xs: "xs = []" by simp
    from Cons 2(2) have "cmatch ic (Lit CHR ''.'') x" by simp
    then have "x = CHR ''.''" by (cases ic) (auto dest: to_lower_dot)
    with Cons xs show ?thesis by simp
  qed
  from u1 d1 u2 d3 r show ?thesis by blast
qed

lemma is_rep_lits: "list_all is_rep (lits s)"
  by (simp add: lits_def list_all_iff is_rep_def)

lemma is_rep_sep: "list_all is_rep sep_items"
  by (simp add: sep_items_def is_rep_def)

lemma catalog_pattern:
  assumes "test \<in> set LAB_TEST_PATTERNS"
  shows "\<exists>pre tail. pattern test = pre @ value_items @ tail \<and> list_all is_rep pre"
proof -
  have "\<exists>pre tail. p1 @ sep_items @ value_items @ tl = pre @ value_items @ tail \<and> list_all is_rep pre"
    if "list_all is_rep p1" for p1 tl
    using that is_rep_sep by (intro exI [of _ "p1 @ sep_items"] exI [of _ tl]) simp
  note dec = this
  have r: "list_all is_rep [Rep c q]" for c q by (simp add: is_rep_def)
  from assms consider
      "pattern test = (lits ''HB'' @ [Rep Space Plus] @ lits ''ESTIMATION'') @ sep_items @ value_items
        @ ([Rep Space Star, GroupOpen] @ lits ''g/dL'' @ [GroupClose])"
    | "pattern test = (lits ''PCV'' @ [Rep Space Star, Rep (Lit CHR ''('') Opt] @ lits ''PACKED''
        @ [Rep Space Plus] @ lits ''CELL'' @ [Rep Space Plus] @ lits ''VOLUME''
        @ [Rep (Lit CHR '')'') Opt]) @ sep_items @ value_items
        @ ([Rep Space Star, GroupOpen] @ lits ''%'' @ [GroupClose])"
    | "pattern test = (lits ''RBC'' @ [Rep Space Plus] @ lits ''COUNT'') @ sep_items @ value_items
        @ ([Rep Space Star, GroupOpen] @ lits ''million/cmm'' @ [GroupClose])"
    | "pattern test = (lits ''WBC'' @ [Rep Space Plus] @ lits ''COUNT'') @ sep_items @ value_items
        @ [Rep Space Star, GroupOpen, AltLits [''cells/cmm'', ''/cmm''], GroupClose]"
    | "pattern test = (lits ''PLATELET'' @ [Rep Space Plus] @ lits ''COUNT'') @ sep_items @ value_items
        @ [Rep Space Star, GroupOpen, AltLits [''lakhs/cmm'', ''/cmm''], GroupClose]"
    unfolding LAB_TEST_PATTERNS_def by (auto simp del: append_assoc simp add: append_assoc [symmetric])
  then show ?thesis
  proof cases
    case 1
    show ?thesis unfolding 1 by (rule dec) (simp add: is_rep_lits is_rep_def)
  next
    case 2
    show ?thesis unfolding 2 by (rule dec) (simp add: is_rep_lits is_rep_def)
  next
    case 3
    show ?thesis unfolding 3 by (rule dec) (simp add: is_rep_lits is_rep_def)
  next
    case 4
    show ?thesis unfolding 4 by (rule dec) (simp add: is_rep_lits is_rep_def)
  next
    case 5
    show ?thesis unfolding 5 by (rule dec) (simp add: is_rep_lits is_rep_def)
  qed
qed

lemma catalog_groups:
  assumes "test \<in> set LAB_TEST_PATTERNS"
  shows "n_close (pattern test) = 2"
  using assms
  by (auto simp: LAB_TEST_PATTERNS_def n_close_def lits_def sep_items_def value_items_def
      count_list_append)

lemma search_value:
  assumes "test \<in> set LAB_TEST_PATTERNS" and "re_search (pattern test) text True = Some g"
  shows "\<exists>u1 u2 u3 c. g = [u1 @ u2 @ u3, c] \<and> u1 \<noteq> [] \<and> list_all is_decimal u1 \<and>
           (u2 = [] \<or> u2 = ''.'') \<and> list_all is_decimal u3"
proof -
  from catalog_pattern [OF assms(1)] obtain pre tail where
    p: "pattern test = pre @ value_items @ tail" and pre: "list_all is_rep pre" by blast
  from re_search_anchor [OF assms(2)] obtain t where t: "rmatch True (pattern test) t [] [] = Some g"
    by blast
  then have len: "length g = 2"
    using rmatch_caps [OF t] catalog_groups [OF assms(1)] by auto
  from t p have "rmatch True (pre @ value_items @ tail) t [] [] = Some g" by simp
  from skip_reps [OF pre this] obtain t' where
    "rmatch True (value_items @ tail) t' [] [] = Some g" by blast
  from value_group [OF this] obtain u1 u2 u3 t3 where
    u: "u1 \<noteq> []" "list_all is_decimal u1" "u2 = [] \<or> u2 = ''.''" "list_all is_decimal u3"
    and r: "rmatch True tail t3 t' ([] @ [u1 @ u2 @ u3]) = Some g" by blast
  from rmatch_caps [OF r] obtain more where "g = [u1 @ u2 @ u3] @ more" by auto
  with len obtain c where "g = [u1 @ u2 @ u3, c]" by (cases more) auto
  with u show ?thesis by blast
qed

lemma all_takeWhile:
  "list_all P xs \<Longrightarrow> takeWhile P xs = xs"
  "list_all P xs \<Longrightarrow> dropWhile P xs = []"
  by (simp_all add: list_all_iff)

lemma numeric_shapeI:
  assumes "u1 \<noteq> []" "list_all is_decimal u1" "u2 = [] \<or> u2 = ''.''" "list_all is_decimal u3"
  shows "numeric_shape (u1 @ u2 @ u3)"
proof -
  have nd: "\<not> is_decimal CHR ''.''" by (simp add: is_decimal_def)
  from assms(3) show ?thesis
  proof
    assume u2: "u2 = []"
    define s where "s = u1 @ u3"
    from assms have "list_all is_decimal s" and ne: "s \<noteq> []" by (simp_all add: s_def)
    then have "numeric_shape s" by (simp add: numeric_shape_def all_takeWhile)
    with u2 show ?thesis by (simp add: s_def)
  next
    assume u2: "u2 = ''.''"
    from assms(2) have "takeWhile is_decimal (u1 @ CHR ''.'' # u3) = u1"
      "dropWhile is_decimal (u1 @ CHR ''.'' # u3) = CHR ''.'' # u3"
      using nd by (simp_all add: list_all_iff takeWhile_append2 dropWhile_append2)
    with u2 assms(1,4) show ?thesis by (simp add: numeric_shape_def)
  qed
qed

lemma numeric_shapeD:
  assumes "numeric_shape s"
  shows "\<exists>u1 u2 u3. s = u1 @ u2 @ u3 \<and> u1 \<noteq> [] \<and> list_all is_decimal u1 \<and>
           (u2 = [] \<or> u2 = ''.'') \<and> list_all is_decimal u3"
proof -
  let ?d = "takeWhile is_decimal s" and ?r = "dropWhile is_decimal s"
  have s: "s = ?d @ ?r" by simp
  have d: "list_all is_decimal ?d" by (simp add: list_all_iff) (meson set_takeWhileD)
  from assms have ne: "?d \<noteq> []" by (simp add: numeric_shape_def)
  show ?thesis
  proof (cases ?r)
    case Nil
    with s have "s = ?d @ [] @ []" by simp
    with d ne have "s = ?d @ [] @ [] \<and> ?d \<noteq> [] \<and> list_all is_decimal ?d \<and>
      (([]::string) = [] \<or> ([]::string) = ''.'') \<and> list_all is_decimal []" by simp
    then show ?thesis by blast
  next
    case (Cons c r)
    with assms have "c = CHR ''.''" "list_all is_decimal r" by (simp_all add: numeric_shape_def)
    with Cons s have "s = ?d @ ''.'' @ r" by simp
    with d ne \<open>list_all is_decimal r\<close> have "s = ?d @ ''.'' @ r \<and> ?d \<noteq> [] \<and>
      list_all is_decimal ?d \<and> (''.'' = [] \<or> ''.'' = ''.'') \<and> list_all is_decimal r" by simp
    then show ?thesis by blast
  qed
qed

lemma valid_digits: "ds \<noteq> [] \<Longrightarrow> list_all is_decimal ds \<Longrightarrow> valid_digitpart ds"
  by (induction ds rule: valid_digitpart.induct) (auto dest: decimal_not_special)

lemma digits_dus: "list_all is_decimal ds \<Longrightarrow> list_all digit_or_us ds"
  by (simp add: list_all_iff digit_or_us_def)

lemma parse_number_numeric:
  assumes "u1 \<noteq> []" "list_all is_decimal u1" "u2 = [] \<or> u2 = ''.''" "list_all is_decimal u3"
  shows "\<exists>m e. parse_number (u1 @ u2 @ u3) = Some (m, e)"
proof -
  have nd: "\<not> digit_or_us CHR ''.''" by (simp add: digit_or_us_def is_decimal_def)
  from assms(3) show ?thesis
  proof
    assume u2: "u2 = []"
    define s where "s = u1 @ u3"
    from assms have d: "list_all is_decimal s" and ne: "s \<noteq> []" by (simp_all add: s_def)
    from ne d have v: "valid_digitpart s" by (rule valid_digits)
    from digits_dus [OF d] v ne
    have "\<exists>m e. parse_number s = Some (m, e)"
      by (simp add: parse_number_def parse_exponent_def Let_def all_takeWhile)
    with u2 show ?thesis by (simp add: s_def)
  next
    assume u2: "u2 = ''.''"
    from assms(2) have tw: "takeWhile digit_or_us (u1 @ CHR ''.'' # u3) = u1"
      and dw: "dropWhile digit_or_us (u1 @ CHR ''.'' # u3) = CHR ''.'' # u3"
      using nd digits_dus [of u1] by (simp_all add: list_all_iff takeWhile_append2 dropWhile_append2)
    have d3: "list_all digit_or_us u3" using assms(4) by (rule digits_dus)
    have v1: "valid_digitpart u1" using assms(1,2) by (rule valid_digits)
    have v3: "u3 = [] \<or> valid_digitpart u3" using assms(4) valid_digits by blast
    define s where "s = u1 @ CHR ''.'' # u3"
    have "\<exists>m e. parse_number s = Some (m, e)"
      unfolding parse_number_def s_def tw dw
      using d3 v1 v3 assms(1)
      by (simp add: parse_exponent_def Let_def all_takeWhile)
    with u2 show ?thesis by (simp add: s_def)
  qed
qed

lemma strip_float_id:
  assumes "s \<noteq> []" "\<not> is_float_space (hd s)" "\<not> is_float_space (last s)"
  shows "strip_float s = s"
proof -
  from assms(1,2) have 1: "dropWhile is_float_space s = s" by (cases s) auto
  from assms(1,3) have "rev s \<noteq> []" "\<not> is_float_space (hd (rev s))"
    by (simp_all add: hd_rev)
  then have 2: "dropWhile is_float_space (rev s) = rev s" by (cases "rev s") auto
  from 1 2 show ?thesis by (simp add: strip_float_def)
qed

lemma py_float_numeric:
  assumes "numeric_shape s"
  shows "\<exists>x. py_float s = Inr x"
proof -
  from numeric_shapeD [OF assms] obtain u1 u2 u3 where s: "s = u1 @ u2 @ u3"
    and u: "u1 \<noteq> []" "list_all is_decimal u1" "u2 = [] \<or> u2 = ''.''" "list_all is_decimal u3"
    by blast
  from u(1) obtain c r where u1: "u1 = c # r" by (cases u1) auto
  with u(2) have c: "is_decimal c" by simp
  note cs = decimal_not_special [OF c]
  have ne: "s \<noteq> []" using s u1 by simp
  have hd: "hd s = c" using s u1 by simp
  have "last s \<in> set s" using ne by simp
  then have "is_decimal (last s) \<or> last s = CHR ''.''"
    using s u by (auto simp: list_all_iff)
  then have l: "\<not> is_float_space (last s)"
    by (auto dest: decimal_not_special simp: is_float_space_def)
  have strip: "strip_float s = c # (r @ u2 @ u3)"
    using strip_float_id [OF ne _ l] hd cs s u1 by simp
  from parse_number_numeric [OF u] obtain m e where pn: "parse_number s = Some (m, e)"
    using s by blast
  have low: "map to_lower s \<noteq> ''inf''" "map to_lower s \<noteq> ''infinity''" "map to_lower s \<noteq> ''nan''"
    using s u1 cs by auto
  have "parse_abs_float s = Inr (round_double m e)"
    using pn low by (simp add: parse_abs_float_def Let_def)
  then show ?thesis using strip cs s u1 by (simp add: py_float_def)
qed

lemma out_of_range_total: "\<exists>b. is_value_out_of_range v r = Inr b"
proof (cases "range_check v r")
  case (Inl e)
  then have "e = ValueError" by (rule range_check_error)
  with Inl show ?thesis by (auto simp add: is_value_out_of_range_def)
next
  case (Inr b)
  then show ?thesis by (simp add: is_value_out_of_range_def)
qed

lemma re_search_groups:
  "re_search p text ic = Some g \<Longrightarrow> length g = n_close p"
  using re_search_anchor [of p "text" ic g] rmatch_caps [of ic p _ "[]" "[]" g] by auto

lemma extract_step:
  assumes "1 \<le> n_close (pattern test)"
  shows "extract_loop (test # rest) text results =
    extract_loop rest text (results @ (if matched text test then [result_of text test] else []))"
proof (cases "re_search (pattern test) text True")
  case None
  then show ?thesis by (simp add: matched_def)
next
  case (Some g)
  from re_search_groups [OF Some] assms obtain v more where g: "g = v # more" by (cases g) auto
  obtain b where b: "is_value_out_of_range v
      (case reference_range test of Some r \<Rightarrow> r | None \<Rightarrow> []) = Inr b"
    using out_of_range_total by blast
  show ?thesis
  proof (cases more)
    case Nil
    with Some g b show ?thesis
      by (simp add: matched_def result_of_def group_def Let_def split: option.splits)
  next
    case (Cons c more')
    with Some g b show ?thesis
      by (simp add: matched_def result_of_def group_def Let_def split: option.splits)
  qed
qed

lemma extract_loop_eq:
  "list_all (\<lambda>t. 1 \<le> n_close (pattern t)) ts \<Longrightarrow>
   extract_loop ts text results = Inr (results @ map (result_of text) (filter (matched text) ts))"
proof (induction ts arbitrary: results)
  case Nil
  then show ?case by simp
next
  case (Cons test ts)
  then have 1: "1 \<le> n_close (pattern test)" and ts: "list_all (\<lambda>t. 1 \<le> n_close (pattern t)) ts"
    by simp_all
  show ?case
    unfolding extract_step [OF 1] Cons.IH [OF ts] by simp
qed

lemma extract_lab_tests_eq:
  "extract_lab_tests text = Inr (map (result_of text) (filter (matched text) LAB_TEST_PATTERNS))"
proof -
  have "list_all (\<lambda>t. 1 \<le> n_close (pattern t)) LAB_TEST_PATTERNS"
    by (simp add: list_all_iff catalog_groups)
  from extract_loop_eq [OF this] show ?thesis by (simp add: extract_lab_tests_def)
qed

section \<open>Properties of the extraction pipeline\<close>

lemma char_of_eq_iff': "c = char_of (n::nat) \<longleftrightarrow> of_char c = take_bit 8 n"
  using char_of_eq_iff [of n c] by auto

lemmas regex_eval = lits_def sep_items_def value_items_def to_lower_def is_decimal_def
  is_space_def Let_def char_of_eq_iff char_of_eq_iff'

lemmas extract_eval = extract_lab_tests_def LAB_TEST_PATTERNS_def group_def regex_eval range_eval
  float_eval

lemma catalog_units:
  "t \<in> set LAB_TEST_PATTERNS \<Longrightarrow> \<exists>u. unit t = Some u"
  by (auto simp: LAB_TEST_PATTERNS_def)

lemma catalog_names: "distinct (map name LAB_TEST_PATTERNS)"
  by (simp add: LAB_TEST_PATTERNS_def)

lemma re_search_first: "re_search p text ic = first_match p text ic"
proof (induction "text")
  case Nil
  show ?case by (simp add: first_match_def)
next
  case (Cons x xs)
  have upt: "[0..<Suc (length (x # xs))] = 0 # map Suc [0..<Suc (length xs)]"
    by (simp add: upt_conv_Cons map_Suc_upt del: upt_Suc)
  show ?case
  proof (cases "rmatch ic p (x # xs) [] []")
    case (Some g)
    have "first_match p (x # xs) ic = Some g"
      unfolding first_match_def upt by (simp add: Some)
    with Some show ?thesis by simp
  next
    case None
    have "first_match p (x # xs) ic = first_match p xs ic"
      unfolding first_match_def upt
      by (simp add: None filter_map o_def del: upt_Suc split: list.splits)
    with None Cons show ?thesis by simp
  qed
qed

lemma result_name: "test_name (result_of text t) = name t"
  by (simp add: result_of_def Let_def)

lemma result_unit: "t \<in> set LAB_TEST_PATTERNS \<Longrightarrow> Some (test_unit (result_of text t)) = unit t"
  using catalog_units [of t] by (auto simp: result_of_def Let_def)

lemma result_value:
  assumes "t \<in> set LAB_TEST_PATTERNS" and "matched text t"
  shows "numeric_shape (test_value (result_of text t))"
proof -
  from assms(2) obtain g where g: "re_search (pattern t) text True = Some g"
    by (auto simp: matched_def)
  from search_value [OF assms(1) g] obtain u1 u2 u3 c where
    "g = [u1 @ u2 @ u3, c]" "u1 \<noteq> []" "list_all is_decimal u1" "u2 = [] \<or> u2 = ''.''"
    "list_all is_decimal u3" by blast
  with g numeric_shapeI [of u1 u2 u3] show ?thesis by (simp add: result_of_def Let_def)
qed

text \<open>
  C3. When no pattern of the catalog is found in the recognized text,
  \<open>extract_lab_tests\<close> returns the empty list, and the request is answered normally,
  with no \<open>HTTPException\<close> and no other exception: the handler returns the envelope
  with the empty data list (its flag \<open>is_success\<close> is false and its message says that
  no lab tests could be identified).
\<close>

theorem C3_no_match_empty_success:
  assumes "list_all (\<lambda>t. re_search (pattern t) text True = None) LAB_TEST_PATTERNS"
    and "content_type f = Some ct" and "take 6 ct = ''image/''"
    and "extract_text_from_image ext (contents f) = Inr text"
  shows "extract_lab_tests text = Inr [] \<and>
         get_lab_tests ext (Some f) =
           Inr \<lparr>is_success = False,
                message = Some ''No lab tests could be identified in the image'',
                data = []\<rparr>"
proof -
  from assms(1) have "filter (matched text) LAB_TEST_PATTERNS = []"
    by (simp add: list_all_iff matched_def)
  then have e: "extract_lab_tests text = Inr []" by (simp add: extract_lab_tests_eq)
  with assms(2-4) show ?thesis by (simp add: get_lab_tests_def)
qed

theorem C3_no_match_empty_success_witness:
  "extract_lab_tests ''hello'' = Inr [] \<and>
   get_lab_tests
     \<lparr>imdecode = (\<lambda>b. Inr (Some [[(0, 0, 0)]])), gray_of = (\<lambda>p. 0), otsu = (\<lambda>g. 0),
      empty_source_error = Exception ''empty'', image_to_string = (\<lambda>g. Inr ''hello'')\<rparr>
     (Some \<lparr>content_type = Some ''image/png'', contents = [1, 2, 3]\<rparr>) =
     Inr \<lparr>is_success = False,
          message = Some ''No lab tests could be identified in the image'',
          data = []\<rparr>"
proof -
  have 1: "list_all (\<lambda>t. re_search (pattern t) ''hello'' True = None) LAB_TEST_PATTERNS"
    by (simp add: LAB_TEST_PATTERNS_def regex_eval)
  have 2: "extract_text_from_image
     \<lparr>imdecode = (\<lambda>b. Inr (Some [[(0, 0, 0)]])), gray_of = (\<lambda>p. 0), otsu = (\<lambda>g. 0),
      empty_source_error = Exception ''empty'', image_to_string = (\<lambda>g. Inr ''hello'')\<rparr>
     (contents \<lparr>content_type = Some ''image/png'', contents = [1, 2, 3]\<rparr>) = Inr ''hello''"
    by (simp add: extract_text_from_image_def recognize_def preprocess_image_def
        cvtColor_BGR2GRAY_def)
  show ?thesis
    by (rule C3_no_match_empty_success [where ct = "''image/png''", OF 1 _ _ 2]) simp_all
qed

text \<open>
  C4. For every text, the records correspond, in order, to the catalog entries whose
  pattern is found, and the \<open>test_unit\<close> of each record is the \<open>unit\<close> of its entry;
  the text captured by group 2 is not used.
\<close>

theorem C4_canonical_unit:
  "\<exists>rs. extract_lab_tests text = Inr rs \<and>
     map (\<lambda>r. (test_name r, Some (test_unit r))) rs =
       map (\<lambda>t. (name t, unit t)) (filter (matched text) LAB_TEST_PATTERNS)"
  by (simp add: extract_lab_tests_eq o_def result_name result_unit)

theorem C4_canonical_unit_witness:
  "\<exists>rs. extract_lab_tests ''hb estimation 13 g/dl'' = Inr rs \<and>
     map (\<lambda>r. (test_name r, Some (test_unit r))) rs = [(''HB ESTIMATION'', Some ''g/dL'')] \<and>
     re_search (pattern (hd LAB_TEST_PATTERNS)) ''hb estimation 13 g/dl'' True =
       Some [''13'', ''g/dl'']"
proof -
  have 1: "map (\<lambda>t. (name t, unit t)) (filter (matched ''hb estimation 13 g/dl'') LAB_TEST_PATTERNS)
      = [(''HB ESTIMATION'', Some ''g/dL'')]"
    by (simp add: LAB_TEST_PATTERNS_def matched_def regex_eval)
  have 2: "re_search (pattern (hd LAB_TEST_PATTERNS)) ''hb estimation 13 g/dl'' True =
       Some [''13'', ''g/dl'']"
    by (simp add: LAB_TEST_PATTERNS_def regex_eval)
  from C4_canonical_unit [of "''hb estimation 13 g/dl''"] 1 2 show ?thesis by simp
qed

text \<open>
  C5. For every text, the records are the catalog entries whose pattern matches, in
  catalog order, one record for each; the \<open>test_value\<close> of a record is group 1 of the
  match at the first position of the text where its pattern matches; no two records
  have the same \<open>test_name\<close>.
\<close>

theorem C5_catalog_order:
  "\<exists>rs. extract_lab_tests text = Inr rs \<and>
     map (\<lambda>r. (test_name r, test_value r)) rs =
       map (\<lambda>t. (name t, case first_match (pattern t) text True of
                            Some (v # rest) \<Rightarrow> v | _ \<Rightarrow> []))
         (filter (\<lambda>t. first_match (pattern t) text True \<noteq> None) LAB_TEST_PATTERNS) \<and>
     distinct (map test_name rs)"
proof -
  have m: "matched text = (\<lambda>t. first_match (pattern t) text True \<noteq> None)"
    by (simp add: matched_def re_search_first fun_eq_iff)
  have v: "test_value (result_of text t) =
      (case first_match (pattern t) text True of Some (v # rest) \<Rightarrow> v | _ \<Rightarrow> [])" for t
    by (simp add: result_of_def Let_def re_search_first split: option.splits list.splits)
  have d: "distinct (map name (filter (matched text) LAB_TEST_PATTERNS))"
    using catalog_names by (rule distinct_map_filter)
  have "map (\<lambda>r. (test_name r, test_value r)) (map (result_of text) (filter (matched text) LAB_TEST_PATTERNS)) =
       map (\<lambda>t. (name t, case first_match (pattern t) text True of
                            Some (v # rest) \<Rightarrow> v | _ \<Rightarrow> []))
         (filter (\<lambda>t. first_match (pattern t) text True \<noteq> None) LAB_TEST_PATTERNS)"
    by (simp add: o_def result_name v m)
  moreover have "distinct (map test_name (map (result_of text) (filter (matched text) LAB_TEST_PATTERNS)))"
    using d by (simp add: o_def result_name)
  ultimately show ?thesis by (simp only: extract_lab_tests_eq) blast
qed

text \<open>
  C10. For every text, \<open>extract_lab_tests\<close> returns a list and raises nothing,
  every \<open>test_value\<close> in it has the shape \<open>\d+\.?\d*\<close>, and \<open>float()\<close> accepts
  it: the handler of \<open>is_value_out_of_range\<close> is never entered for a failing value.
\<close>

theorem C10_values_parse:
  "\<exists>rs. extract_lab_tests text = Inr rs \<and>
     list_all (\<lambda>r. numeric_shape (test_value r) \<and> (\<exists>x. py_float (test_value r) = Inr x)) rs"
proof -
  have "numeric_shape (test_value (result_of text t)) \<and>
      (\<exists>x. py_float (test_value (result_of text t)) = Inr x)"
    if "t \<in> set LAB_TEST_PATTERNS" "matched text t" for t
    using result_value [OF that] py_float_numeric by blast
  then show ?thesis by (simp add: extract_lab_tests_eq list_all_iff)
qed

text \<open>
  C7. On the text \<open>HB ESTIMATION: 10.5 g/dL\<close> the result is exactly one record:
  HB ESTIMATION, value 10.5, unit g/dL, range 12.0-15.0, out of range.
\<close>

theorem C7_hb_estimation:
  "extract_lab_tests ''HB ESTIMATION: 10.5 g/dL'' =
     Inr [\<lparr>test_name = ''HB ESTIMATION'', test_value = ''10.5'',
           bio_reference_range = ''12.0-15.0'', test_unit = ''g/dL'',
           lab_test_out_of_range = True\<rparr>]"
  by (simp add: extract_eval)

text \<open>
  C8. When the decoder raises, when the buffer is not an image (the decoder gives
  \<open>None\<close> and the grey conversion raises on it), and when the recognizer raises,
  \<open>extract_text_from_image\<close> ends with one \<open>HTTPException\<close> of status 500 whose
  detail is \<open>Error processing image: \<close> followed by the text of the cause; no text is
  returned.
\<close>

theorem C8_processing_error:
  "(imdecode ext image_data = Inl (Exception m) \<longrightarrow>
      extract_text_from_image ext image_data =
        Inl (HTTPException 500 (''Error processing image: '' @ m))) \<and>
   (imdecode ext image_data = Inr None \<and> empty_source_error ext = Exception m \<longrightarrow>
      extract_text_from_image ext image_data =
        Inl (HTTPException 500 (''Error processing image: '' @ m))) \<and>
   (imdecode ext image_data = Inr (Some img) \<and> preprocess_image ext (Some img) = Inr p \<and>
      image_to_string ext p = Inl (Exception m) \<longrightarrow>
      extract_text_from_image ext image_data =
        Inl (HTTPException 500 (''Error processing image: '' @ m)))"
  by (simp add: extract_text_from_image_def recognize_def preprocess_image_def
      cvtColor_BGR2GRAY_def)

theorem C8_processing_error_witness:
  "extract_text_from_image
     \<lparr>imdecode = (\<lambda>b. Inl (Exception ''bad buffer'')), gray_of = (\<lambda>p. 0), otsu = (\<lambda>g. 0),
      empty_source_error = Exception ''empty source'',
      image_to_string = (\<lambda>g. Inr ''text'')\<rparr> [] =
     Inl (HTTPException 500 ''Error processing image: bad buffer'') \<and>
   extract_text_from_image
     \<lparr>imdecode = (\<lambda>b. Inr None), gray_of = (\<lambda>p. 0), otsu = (\<lambda>g. 0),
      empty_source_error = Exception ''empty source'',
      image_to_string = (\<lambda>g. Inr ''text'')\<rparr> [1, 2, 3] =
     Inl (HTTPException 500 ''Error processing image: empty source'') \<and>
   extract_text_from_image
     \<lparr>imdecode = (\<lambda>b. Inr (Some [[(0, 0, 0)]])), gray_of = (\<lambda>p. 0), otsu = (\<lambda>g. 0),
      empty_source_error = Exception ''empty source'',
      image_to_string = (\<lambda>g. Inl (Exception ''tesseract is not installed''))\<rparr> [1, 2, 3] =
     Inl (HTTPException 500 ''Error processing image: tesseract is not installed'')"
  using
    C8_processing_error [where ext = "\<lparr>imdecode = (\<lambda>b. Inl (Exception ''bad buffer'')), gray_of = (\<lambda>p. 0),
        otsu = (\<lambda>g. 0), empty_source_error = Exception ''empty source'',
        image_to_string = (\<lambda>g. Inr ''text'')\<rparr>" and image_data = "[]" and m = "''bad buffer''"]
    C8_processing_error [where ext = "\<lparr>imdecode = (\<lambda>b. Inr None), gray_of = (\<lambda>p. 0),
        otsu = (\<lambda>g. 0), empty_source_error = Exception ''empty source'',
        image_to_string = (\<lambda>g. Inr ''text'')\<rparr>" and image_data = "[1, 2, 3]"
        and m = "''empty source''"]
    C8_processing_error [where ext = "\<lparr>imdecode = (\<lambda>b. Inr (Some [[(0, 0, 0)]])), gray_of = (\<lambda>p. 0),
        otsu = (\<lambda>g. 0), empty_source_error = Exception ''empty source'',
        image_to_string = (\<lambda>g. Inl (Exception ''tesseract is not installed''))\<rparr>"
        and image_data = "[1, 2, 3]" and m = "''tesseract is not installed''"
        and img = "[[(0, 0, 0)]]" and p = "[[0]]"]
  by (simp add: preprocess_image_def cvtColor_BGR2GRAY_def threshold_binary_inv_otsu_def)

text \<open>
  C9. For every decoded colour image, \<open>preprocess_image\<close> returns a one-channel
  image with the rows and columns of the input; each pixel is 255 minus the pixel of
  the inverted binary threshold (Otsu's threshold, called with the threshold argument
  150 and the maximum 255), so it is 0 or 255, and it is 255 exactly where the grey
  value is above the threshold: the polarity of the input.
\<close>

theorem C9_preprocess_image:
  "\<exists>gray out. cvtColor_BGR2GRAY ext (Some img) = Inr gray \<and>
     preprocess_image ext (Some img) = Inr out \<and>
     length out = length img \<and> map length out = map length img \<and>
     out = map (map (\<lambda>p. 255 - p)) (snd (threshold_binary_inv_otsu ext gray 150 255)) \<and>
     list_all (list_all (\<lambda>p. p = 0 \<or> p = 255)) out \<and>
     out = map (map (\<lambda>q. if otsu ext gray < unat (gray_of ext q) then 255 else 0)) img"
  by (auto simp add: cvtColor_BGR2GRAY_def preprocess_image_def threshold_binary_inv_otsu_def
      Let_def o_def list_all_iff if_distrib [of "\<lambda>p. 255 - p"])

theorem C9_preprocess_image_witness:
  "preprocess_image
     \<lparr>imdecode = (\<lambda>b. Inr None), gray_of = (\<lambda>(b, g, r). g), otsu = (\<lambda>g. 100),
      empty_source_error = Exception ''empty source'',
      image_to_string = (\<lambda>g. Inr ''text'')\<rparr>
     (Some [[(0, 10, 0), (0, 200, 0)], [(7, 100, 9), (1, 101, 3)]]) =
   Inr [[0, 255], [0, 255]]"
  using C9_preprocess_image [where ext = "\<lparr>imdecode = (\<lambda>b. Inr None), gray_of = (\<lambda>(b, g, r). g),
      otsu = (\<lambda>g. 100), empty_source_error = Exception ''empty source'',
      image_to_string = (\<lambda>g. Inr ''text'')\<rparr>"
      and img = "[[(0, 10, 0), (0, 200, 0)], [(7, 100, 9), (1, 101, 3)]]"]
  by (auto simp: cvtColor_BGR2GRAY_def)

theorem C5_catalog_order_witness:
  "\<exists>rs. extract_lab_tests (''PLATELET COUNT: 2.5 lakhs/cmm '' @ ''HB ESTIMATION: 13 g/dL'') = Inr rs \<and>
     map (\<lambda>r. (test_name r, test_value r)) rs =
       [(''HB ESTIMATION'', ''13''), (''PLATELET COUNT'', ''2.5'')]"
proof -
  have "map (\<lambda>r. (test_name r, test_value r))
      (projr (extract_lab_tests (''PLATELET COUNT: 2.5 lakhs/cmm '' @ ''HB ESTIMATION: 13 g/dL''))) =
       [(''HB ESTIMATION'', ''13''), (''PLATELET COUNT'', ''2.5'')]"
    by (simp add: extract_eval)
  with C5_catalog_order [of "''PLATELET COUNT: 2.5 lakhs/cmm '' @ ''HB ESTIMATION: 13 g/dL''"]
  show ?thesis by auto
qed

theorem C10_values_parse_witness:
  "\<exists>rs. extract_lab_tests ''RBC COUNT = 4.7 million/cmm'' = Inr rs \<and>
     map test_value rs = [''4.7''] \<and> numeric_shape ''4.7'' \<and>
     (\<exists>x. py_float ''4.7'' = Inr x)"
proof -
  have "map test_value (projr (extract_lab_tests ''RBC COUNT = 4.7 million/cmm'')) = [''4.7'']"
    by (simp add: extract_eval)
  with C10_values_parse [of "''RBC COUNT = 4.7 million/cmm''"]
  show ?thesis by (auto simp: list_all_iff)
qed

theorem C7_hb_estimation_witness:
  "map lab_test_out_of_range (projr (extract_lab_tests ''HB ESTIMATION: 10.5 g/dL'')) = [True]"
  using C7_hb_estimation by simp

end
